theory Spec2Isabelle
  imports Complex_Main "HOL-Library.Sublist"
begin

section \<open>The Bloom filter of \<open>BloomFilter.py\<close>\<close>

text \<open>
  The module has two classes: \<open>BloomFilter\<close>, a bit array probed by \<open>hash_count\<close>
  seeded hashes, and \<open>ScalableBloomFilter\<close>, a list of such filters that grows when
  the newest one is full.

  Conventions of the embedding.
  \<^item> Python integers are \<open>int\<close>. Python floats are idealised as \<open>real\<close>:
    \<open>math.log\<close> is \<open>ln\<close>, \<open>math.ceil\<close> is the ceiling, and rounding, overflow
    and the limits of memory are not represented. The capacity is an integer, as the
    data model of the specification has it; error rate and scale factor are reals.
  \<^item> \<open>mmh3.hash\<close> is an external library function. Every operation that hashes takes
    it as the argument \<open>h\<close>, so that each theorem holds for any hash function.
  \<^item> A call either raises (\<open>Inl\<close> of the exception) or returns (\<open>Inr\<close> of the
    value). A method that mutates \<open>self\<close> returns the updated object; when it
    raises, only the exception is returned.
  \<^item> The bit array is a \<open>bool list\<close>; \<open>bitarray\<close> indexing follows Python's rule
    for negative indices and raises \<open>IndexError\<close> out of range.
\<close>

datatype error = ValueError | ZeroDivisionError | IndexError

type_synonym mmh3 = "string \<Rightarrow> int \<Rightarrow> int"

record BloomFilter =
  capacity :: int
  element_count :: int
  error_rate :: real
  size_bf :: int
  hash_count :: int
  bit_array :: "bool list"

subsection \<open>Sequences and bit arrays\<close>

text \<open>\<open>xrange(n)\<close>: the integers \<open>0, ..., n - 1\<close>, none when \<open>n \<le> 0\<close>.\<close>

definition xrange :: "int \<Rightarrow> int list" where
  "xrange n = map int [0..<nat n]"

text \<open>The index Python uses for \<open>xs[i]\<close>: a negative \<open>i\<close> counts from the end.\<close>

definition py_index :: "'a list \<Rightarrow> int \<Rightarrow> error + nat" where
  "py_index xs i =
     (if 0 \<le> i \<and> i < int (length xs) then Inr (nat i)
      else if - int (length xs) \<le> i \<and> i < 0 then Inr (nat (int (length xs) + i))
      else Inl IndexError)"

definition getitem :: "bool list \<Rightarrow> int \<Rightarrow> error + bool" where
  "getitem xs i = (case py_index xs i of Inl err \<Rightarrow> Inl err | Inr j \<Rightarrow> Inr (xs ! j))"

definition setitem :: "bool list \<Rightarrow> int \<Rightarrow> bool \<Rightarrow> error + bool list" where
  "setitem xs i v = (case py_index xs i of Inl err \<Rightarrow> Inl err | Inr j \<Rightarrow> Inr (xs[j := v]))"

text \<open>\<open>a | b\<close> and \<open>a & b\<close> of \<open>bitarray\<close>: both need arrays of one length.\<close>

definition bitarray_or :: "bool list \<Rightarrow> bool list \<Rightarrow> error + bool list" where
  "bitarray_or xs ys =
     (if length xs \<noteq> length ys then Inl ValueError else Inr (map2 (\<or>) xs ys))"

definition bitarray_and :: "bool list \<Rightarrow> bool list \<Rightarrow> error + bool list" where
  "bitarray_and xs ys =
     (if length xs \<noteq> length ys then Inl ValueError else Inr (map2 (\<and>) xs ys))"

text \<open>\<open>bit_array.count()\<close>: the number of bits set.\<close>

definition bitarray_count :: "bool list \<Rightarrow> nat" where
  "bitarray_count xs = length (filter (\<lambda>b. b) xs)"

text \<open>\<open>int(x)\<close> of a float: truncation towards zero.\<close>

definition py_int :: "real \<Rightarrow> int" where
  "py_int x = (if 0 \<le> x then \<lfloor>x\<rfloor> else \<lceil>x\<rceil>)"

subsection \<open>BloomFilter\<close>

text \<open>
  \<open>calc_size\<close>: \<open>int(ceil(- (float(capacity) * log(float(error_rate))) / (log(2))**2))\<close>.
  \<open>math.log\<close> raises \<open>ValueError\<close> on a non-positive argument.
\<close>

definition calc_size :: "BloomFilter \<Rightarrow> error + int" where
  "calc_size f =
     (if error_rate f \<le> 0 then Inl ValueError
      else Inr (py_int (of_int \<lceil>- (real_of_int (capacity f) * ln (error_rate f)) / (ln 2)\<^sup>2\<rceil>)))"

text \<open>\<open>calc_hash_count\<close>: \<open>int(ceil((float(size) / float(capacity)) * log(2)))\<close>.\<close>

definition calc_hash_count :: "BloomFilter \<Rightarrow> error + int" where
  "calc_hash_count f =
     (if capacity f = 0 then Inl ZeroDivisionError
      else Inr (py_int (of_int \<lceil>(of_int (size_bf f) / real_of_int (capacity f)) * ln 2\<rceil>)))"

text \<open>
  \<open>calc_element_count\<close>: with \<open>x\<close> the number of bits set,
  \<open>int(ceil(- (float(size) * log(1.0 - (x / float(size)))) / float(hash_count)))\<close>.
  The operands are evaluated in this order: the division by \<open>size\<close>, the logarithm, the
  division by \<open>hash_count\<close>.
\<close>

definition calc_element_count :: "BloomFilter \<Rightarrow> error + int" where
  "calc_element_count f =
     (let x = real (bitarray_count (bit_array f)) in
      if size_bf f = 0 then Inl ZeroDivisionError
      else if 1 - x / of_int (size_bf f) \<le> 0 then Inl ValueError
      else if hash_count f = 0 then Inl ZeroDivisionError
      else Inr (py_int (of_int
             \<lceil>- (of_int (size_bf f) * ln (1 - x / of_int (size_bf f))) / of_int (hash_count f)\<rceil>)))"

text \<open>
  The constructor. The fields are assigned in the order of the source, so \<open>calc_size\<close>
  reads the capacity and error rate just stored and \<open>calc_hash_count\<close> the size just
  stored. \<open>bitarray(size)\<close> followed by \<open>setall(0)\<close> is \<open>size\<close> cleared bits;
  \<open>bitarray\<close> refuses a negative length.
\<close>

definition BloomFilter_init :: "int \<Rightarrow> real \<Rightarrow> error + BloomFilter" where
  "BloomFilter_init cap rate =
     (if \<not> cap > 0 then Inl ValueError
      else if \<not> (0 < rate \<and> rate < 1) then Inl ValueError
      else
        (let f0 = \<lparr>capacity = cap, element_count = 0, error_rate = rate,
                   size_bf = 0, hash_count = 0, bit_array = []\<rparr>
         in (case calc_size f0 of
               Inl err \<Rightarrow> Inl err
             | Inr m \<Rightarrow>
                 (case calc_hash_count (f0\<lparr>size_bf := m\<rparr>) of
                    Inl err \<Rightarrow> Inl err
                  | Inr k \<Rightarrow>
                      if m < 0 then Inl ValueError
                      else Inr (f0\<lparr>size_bf := m, hash_count := k,
                                   bit_array := replicate (nat m) False\<rparr>)))))"

text \<open>
  \<open>add\<close>: one pass of the loop per seed, then the counter. The loop body computes
  \<open>mmh3.hash(element, seed) % size\<close>, which raises on a zero size, and sets that bit.
\<close>

fun add_loop :: "mmh3 \<Rightarrow> string \<Rightarrow> int list \<Rightarrow> BloomFilter \<Rightarrow> error + BloomFilter" where
  "add_loop h element [] f = Inr f"
| "add_loop h element (seed # seeds) f =
     (if size_bf f = 0 then Inl ZeroDivisionError
      else case setitem (bit_array f) (h element seed mod size_bf f) True of
             Inl err \<Rightarrow> Inl err
           | Inr bs \<Rightarrow> add_loop h element seeds (f\<lparr>bit_array := bs\<rparr>))"

definition BloomFilter_add :: "mmh3 \<Rightarrow> BloomFilter \<Rightarrow> string \<Rightarrow> error + BloomFilter" where
  "BloomFilter_add h f element =
     (case add_loop h element (xrange (hash_count f)) f of
        Inl err \<Rightarrow> Inl err
      | Inr f' \<Rightarrow> Inr (f'\<lparr>element_count := element_count f' + 1\<rparr>))"

text \<open>\<open>lookup\<close>: the loop returns \<open>False\<close> at the first cleared bit.\<close>

fun lookup_loop :: "mmh3 \<Rightarrow> string \<Rightarrow> int list \<Rightarrow> BloomFilter \<Rightarrow> error + bool" where
  "lookup_loop h element [] f = Inr True"
| "lookup_loop h element (seed # seeds) f =
     (if size_bf f = 0 then Inl ZeroDivisionError
      else case getitem (bit_array f) (h element seed mod size_bf f) of
             Inl err \<Rightarrow> Inl err
           | Inr b \<Rightarrow> if b = False then Inr False else lookup_loop h element seeds f)"

definition BloomFilter_lookup :: "mmh3 \<Rightarrow> BloomFilter \<Rightarrow> string \<Rightarrow> error + bool" where
  "BloomFilter_lookup h f element = lookup_loop h element (xrange (hash_count f)) f"

text \<open>
  \<open>union\<close> and \<open>intersection\<close> return \<open>None\<close> for filters of different size or hash
  count; otherwise a new filter built by the constructor from the capacity and error
  rate of \<open>self\<close>, whose bit array and counter are then replaced.
\<close>

definition BloomFilter_union :: "BloomFilter \<Rightarrow> BloomFilter \<Rightarrow> error + BloomFilter option" where
  "BloomFilter_union a b =
     (if size_bf a \<noteq> size_bf b then Inr None
      else if hash_count a \<noteq> hash_count b then Inr None
      else case BloomFilter_init (capacity a) (error_rate a) of
             Inl err \<Rightarrow> Inl err
           | Inr result \<Rightarrow>
               (case bitarray_or (bit_array a) (bit_array b) of
                  Inl err \<Rightarrow> Inl err
                | Inr bs \<Rightarrow>
                    Inr (Some (result\<lparr>bit_array := bs,
                                       element_count := element_count a + element_count b\<rparr>))))"

definition BloomFilter_intersection ::
  "BloomFilter \<Rightarrow> BloomFilter \<Rightarrow> error + BloomFilter option" where
  "BloomFilter_intersection a b =
     (if size_bf a \<noteq> size_bf b then Inr None
      else if hash_count a \<noteq> hash_count b then Inr None
      else case BloomFilter_init (capacity a) (error_rate a) of
             Inl err \<Rightarrow> Inl err
           | Inr result \<Rightarrow>
               (case bitarray_and (bit_array a) (bit_array b) of
                  Inl err \<Rightarrow> Inl err
                | Inr bs \<Rightarrow>
                    (case calc_element_count (result\<lparr>bit_array := bs\<rparr>) of
                       Inl err \<Rightarrow> Inl err
                     | Inr n \<Rightarrow> Inr (Some (result\<lparr>bit_array := bs, element_count := n\<rparr>)))))"

definition is_full :: "BloomFilter \<Rightarrow> bool" where
  "is_full f = (if element_count f < capacity f then False else True)"

definition BloomFilter_contains :: "mmh3 \<Rightarrow> BloomFilter \<Rightarrow> string \<Rightarrow> error + bool" where
  "BloomFilter_contains h f string = BloomFilter_lookup h f string"

subsection \<open>ScalableBloomFilter\<close>

text \<open>
  A scalable filter holds references to \<open>BloomFilter\<close> objects: \<open>union\<close> puts the
  same objects into the list of its result, so a filter can be shared by several
  lists. The objects live in a store, and a scalable filter holds their addresses.
  Allocation takes the next unused address.
\<close>

record store =
  heap :: "nat \<Rightarrow> BloomFilter"
  next_ref :: nat

definition alloc :: "store \<Rightarrow> BloomFilter \<Rightarrow> store \<times> nat" where
  "alloc st f =
     (st\<lparr>heap := (heap st)(next_ref st := f), next_ref := Suc (next_ref st)\<rparr>, next_ref st)"

record ScalableBloomFilter =
  initial_capacity :: int
  element_count_s :: int
  error_rate_s :: real
  scale_factor :: real
  scale_mode :: int
  filters :: "nat list"

definition SCALE_MODE_LINEAR :: int where
  "SCALE_MODE_LINEAR = 1"

definition SCALE_MODE_EXPONENTIAL :: int where
  "SCALE_MODE_EXPONENTIAL = 2"

definition ScalableBloomFilter_init ::
  "store \<Rightarrow> int \<Rightarrow> real \<Rightarrow> real \<Rightarrow> int \<Rightarrow> error + store \<times> ScalableBloomFilter" where
  "ScalableBloomFilter_init st cap0 rate factor mode =
     (if \<not> cap0 > 0 then Inl ValueError
      else if \<not> (0 < rate \<and> rate < 1) then Inl ValueError
      else if \<not> factor > 0 then Inl ValueError
      else if \<not> mode \<in> set [1, 2] then Inl ValueError
      else case BloomFilter_init cap0 rate of
             Inl err \<Rightarrow> Inl err
           | Inr f \<Rightarrow>
               (case alloc st f of
                  (st', a) \<Rightarrow>
                    Inr (st', \<lparr>initial_capacity = cap0, element_count_s = 0,
                               error_rate_s = rate, scale_factor = factor,
                               scale_mode = mode, filters = [] @ [a]\<rparr>)))"

text \<open>
  \<open>calc_next_capacity\<close>: \<open>int(...)\<close> of the product, or of the power, with the
  current number of filters.
\<close>

definition calc_next_capacity :: "ScalableBloomFilter \<Rightarrow> int" where
  "calc_next_capacity s =
     (if scale_mode s = SCALE_MODE_LINEAR
      then py_int (of_int (initial_capacity s) * (scale_factor s * of_nat (length (filters s))))
      else py_int (of_int (initial_capacity s) * (scale_factor s ^ length (filters s))))"

text \<open>\<open>self.filters[-1].add(element)\<close> and the counter of the scalable filter.\<close>

definition add_to_last ::
  "mmh3 \<Rightarrow> store \<Rightarrow> ScalableBloomFilter \<Rightarrow> string \<Rightarrow> error + store \<times> ScalableBloomFilter" where
  "add_to_last h st s element =
     (case py_index (filters s) (- 1) of
        Inl err \<Rightarrow> Inl err
      | Inr j \<Rightarrow>
          (case BloomFilter_add h (heap st (filters s ! j)) element of
             Inl err \<Rightarrow> Inl err
           | Inr f' \<Rightarrow>
               Inr (st\<lparr>heap := (heap st)(filters s ! j := f')\<rparr>,
                    s\<lparr>element_count_s := element_count_s s + 1\<rparr>)))"

definition ScalableBloomFilter_add ::
  "mmh3 \<Rightarrow> store \<Rightarrow> ScalableBloomFilter \<Rightarrow> string \<Rightarrow> error + store \<times> ScalableBloomFilter" where
  "ScalableBloomFilter_add h st s element =
     (case py_index (filters s) (- 1) of
        Inl err \<Rightarrow> Inl err
      | Inr j \<Rightarrow>
          if is_full (heap st (filters s ! j)) then
            (case BloomFilter_init (calc_next_capacity s) (error_rate_s s) of
               Inl err \<Rightarrow> Inl err
             | Inr f \<Rightarrow>
                 (case alloc st f of
                    (st', a) \<Rightarrow> add_to_last h st' (s\<lparr>filters := filters s @ [a]\<rparr>) element))
          else add_to_last h st s element)"

text \<open>\<open>lookup\<close>: the filters newest first, returning at the first that answers \<open>True\<close>.\<close>

fun lookup_filters :: "mmh3 \<Rightarrow> store \<Rightarrow> string \<Rightarrow> nat list \<Rightarrow> error + bool" where
  "lookup_filters h st string [] = Inr False"
| "lookup_filters h st string (a # as) =
     (case BloomFilter_lookup h (heap st a) string of
        Inl err \<Rightarrow> Inl err
      | Inr b \<Rightarrow> if b then Inr True else lookup_filters h st string as)"

definition ScalableBloomFilter_lookup ::
  "mmh3 \<Rightarrow> store \<Rightarrow> ScalableBloomFilter \<Rightarrow> string \<Rightarrow> error + bool" where
  "ScalableBloomFilter_lookup h st s string = lookup_filters h st string (rev (filters s))"

text \<open>
  \<open>union\<close>: a new scalable filter from the constructor (which allocates one
  \<open>BloomFilter\<close>), whose list is then rebound to the concatenation of both lists.
\<close>

definition ScalableBloomFilter_union ::
  "store \<Rightarrow> ScalableBloomFilter \<Rightarrow> ScalableBloomFilter \<Rightarrow> error + store \<times> ScalableBloomFilter" where
  "ScalableBloomFilter_union st s b =
     (case ScalableBloomFilter_init st (initial_capacity s) (error_rate_s s)
             (scale_factor s) (scale_mode s) of
        Inl err \<Rightarrow> Inl err
      | Inr (st', result) \<Rightarrow>
          Inr (st', result\<lparr>filters := filters s @ filters b,
                            element_count_s := element_count_s s + element_count_s b\<rparr>))"

definition ScalableBloomFilter_contains ::
  "mmh3 \<Rightarrow> store \<Rightarrow> ScalableBloomFilter \<Rightarrow> string \<Rightarrow> error + bool" where
  "ScalableBloomFilter_contains h st s string = ScalableBloomFilter_lookup h st s string"

subsection \<open>Sequences of calls\<close>

text \<open>Adding the elements of a list in turn; an exception ends the sequence.\<close>

fun add_all :: "mmh3 \<Rightarrow> BloomFilter \<Rightarrow> string list \<Rightarrow> error + BloomFilter" where
  "add_all h f [] = Inr f"
| "add_all h f (x # xs) =
     (case BloomFilter_add h f x of Inl err \<Rightarrow> Inl err | Inr f' \<Rightarrow> add_all h f' xs)"


text \<open>
  The calls a program can make on a scalable filter. \<open>add\<close> updates the filter;
  \<open>lookup\<close> and \<open>in\<close> leave it as it is; \<open>union\<close> leaves it as it is and
  returns a new scalable filter, with which the sequence goes on.
\<close>

datatype operation = Add string | Lookup string | Contains string | Union ScalableBloomFilter

fun apply_operation ::
  "mmh3 \<Rightarrow> store \<Rightarrow> ScalableBloomFilter \<Rightarrow> operation \<Rightarrow> error + store \<times> ScalableBloomFilter" where
  "apply_operation h st s (Add x) = ScalableBloomFilter_add h st s x"
| "apply_operation h st s (Lookup x) =
     (case ScalableBloomFilter_lookup h st s x of Inl err \<Rightarrow> Inl err | Inr b \<Rightarrow> Inr (st, s))"
| "apply_operation h st s (Contains x) =
     (case ScalableBloomFilter_contains h st s x of Inl err \<Rightarrow> Inl err | Inr b \<Rightarrow> Inr (st, s))"
| "apply_operation h st s (Union b) = ScalableBloomFilter_union st s b"

fun apply_operations ::
  "mmh3 \<Rightarrow> store \<Rightarrow> ScalableBloomFilter \<Rightarrow> operation list \<Rightarrow> error + store \<times> ScalableBloomFilter" where
  "apply_operations h st s [] = Inr (st, s)"
| "apply_operations h st s (op # ops) =
     (case apply_operation h st s op of
        Inl err \<Rightarrow> Inl err
      | Inr (st', s') \<Rightarrow> apply_operations h st' s' ops)"

subsection \<open>Notions used to state the properties\<close>

text \<open>The bit positions an element is hashed to, in a filter of \<open>m\<close> bits and \<open>k\<close> hashes.\<close>

definition probes :: "mmh3 \<Rightarrow> int \<Rightarrow> int \<Rightarrow> string \<Rightarrow> nat set" where
  "probes h m k element = (\<lambda>seed. nat (h element seed mod m)) ` set (xrange k)"

text \<open>The bit array of \<open>f\<close> with the positions of all elements of \<open>xs\<close> set.\<close>

definition bits_after :: "mmh3 \<Rightarrow> BloomFilter \<Rightarrow> string list \<Rightarrow> bool list" where
  "bits_after h f xs =
     map (\<lambda>p. bit_array f ! p \<or> (\<exists>x \<in> set xs. p \<in> probes h (size_bf f) (hash_count f) x))
       [0..<length (bit_array f)]"

text \<open>
  The filters the class produces: the fields hold what the constructor derives from the
  capacity and the error rate, and the bit array has \<open>size\<close> bits. The constructor
  establishes this, and \<open>add\<close>, \<open>union\<close> and \<open>intersection\<close> keep it
  (\<open>init_wf\<close>, \<open>add_wf\<close>, \<open>union_wf\<close>, \<open>intersection_wf\<close> below).
\<close>

definition wf_filter :: "BloomFilter \<Rightarrow> bool" where
  "wf_filter f \<longleftrightarrow>
     0 < capacity f \<and> 0 < error_rate f \<and> error_rate f < 1 \<and>
     calc_size f = Inr (size_bf f) \<and> calc_hash_count f = Inr (hash_count f) \<and>
     length (bit_array f) = nat (size_bf f)"

text \<open>Concrete inputs: a hash function and the filters \<open>BloomFilter(1, 0.5)\<close> and
  \<open>BloomFilter(2, 0.5)\<close>, fresh and after some additions.\<close>

definition example_hash :: mmh3 where
  "example_hash element seed = int (length element) * (seed + 1)"

definition filter_1_half :: BloomFilter where
  "filter_1_half = \<lparr>capacity = 1, element_count = 0, error_rate = 1/2,
                     size_bf = 2, hash_count = 2, bit_array = [False, False]\<rparr>"

definition filter_2_half :: BloomFilter where
  "filter_2_half = \<lparr>capacity = 2, element_count = 0, error_rate = 1/2,
                     size_bf = 3, hash_count = 2, bit_array = [False, False, False]\<rparr>"

definition filter_with_a :: BloomFilter where
  "filter_with_a = filter_1_half\<lparr>bit_array := [True, True], element_count := 1\<rparr>"

definition filter_with_bc :: BloomFilter where
  "filter_with_bc = filter_1_half\<lparr>bit_array := [True, False], element_count := 1\<rparr>"

text \<open>
  Stores: one with nothing allocated, and the store of a scalable filter whose only
  filter, at address 0, is \<open>BloomFilter(1, 0.5)\<close> after one \<open>add\<close>, with the state
  of \<open>ScalableBloomFilter(1, 0.5, 1.5, SCALE_MODE_LINEAR)\<close> after that \<open>add\<close>.
\<close>

definition initial_store :: store where
  "initial_store = \<lparr>heap = (\<lambda>a. filter_1_half), next_ref = 0\<rparr>"



text \<open>The filter \<open>ScalableBloomFilter(1, 0.5, 2, SCALE_MODE_LINEAR)\<close> after one \<open>add\<close>, and
  eleven elements to add.\<close>

definition scalable_two :: ScalableBloomFilter where
  "scalable_two =
     \<lparr>initial_capacity = 1, element_count_s = 1, error_rate_s = 1/2,
      scale_factor = 2, scale_mode = SCALE_MODE_LINEAR, filters = [0]\<rparr>"


section \<open>Properties of BloomFilter\<close>

subsection \<open>Arithmetic of the sizing formulas\<close>

lemma py_int_of_int [simp]: "py_int (of_int n) = n"
  by (simp add: py_int_def)

lemma ln2_pos: "0 < ln (2::real)"
  by simp

lemma size_formula_pos:
  assumes "0 < c" "0 < r" "r < 1"
  shows "0 < - (real_of_int c * ln r) / (ln 2)\<^sup>2"
proof -
  have "ln r < 0" using assms by simp
  then have "real_of_int c * ln r < 0" using assms(1) by (simp add: mult_pos_neg)
  then have a: "0 < - (real_of_int c * ln r)" by linarith
  have b: "0 < (ln (2::real))\<^sup>2" using ln2_pos by (rule zero_less_power)
  show ?thesis using a b by (rule divide_pos_pos)
qed

lemma calc_size_eq:
  "0 < error_rate f \<Longrightarrow>
   calc_size f = Inr \<lceil>- (real_of_int (capacity f) * ln (error_rate f)) / (ln 2)\<^sup>2\<rceil>"
  unfolding calc_size_def by (simp only: py_int_of_int) simp

lemma calc_hash_count_eq:
  "capacity f \<noteq> 0 \<Longrightarrow>
   calc_hash_count f = Inr \<lceil>(real_of_int (size_bf f) / real_of_int (capacity f)) * ln 2\<rceil>"
  unfolding calc_hash_count_def by (simp only: py_int_of_int) simp

lemma wf_size_pos: "wf_filter f \<Longrightarrow> 1 \<le> size_bf f"
proof -
  assume w: "wf_filter f"
  then have p: "0 < capacity f" "0 < error_rate f" "error_rate f < 1"
    and e: "calc_size f = Inr (size_bf f)" by (simp_all add: wf_filter_def)
  from e calc_size_eq[OF p(2)]
  have "size_bf f = \<lceil>- (real_of_int (capacity f) * ln (error_rate f)) / (ln 2)\<^sup>2\<rceil>" by simp
  then show ?thesis using size_formula_pos[OF p] by linarith
qed

lemma wf_hash_count_pos: "wf_filter f \<Longrightarrow> 1 \<le> hash_count f"
proof -
  assume w: "wf_filter f"
  then have s: "1 \<le> size_bf f" by (rule wf_size_pos)
  from w have c: "0 < capacity f" and e: "calc_hash_count f = Inr (hash_count f)"
    by (simp_all add: wf_filter_def)
  have "0 < real_of_int (size_bf f) / real_of_int (capacity f)"
    using s c by (intro divide_pos_pos) simp_all
  then have "0 < real_of_int (size_bf f) / real_of_int (capacity f) * ln 2"
    using ln2_pos by (rule mult_pos_pos)
  then have "1 \<le> \<lceil>real_of_int (size_bf f) / real_of_int (capacity f) * ln 2\<rceil>" by linarith
  moreover from e calc_hash_count_eq[of f] c
  have "hash_count f = \<lceil>real_of_int (size_bf f) / real_of_int (capacity f) * ln 2\<rceil>" by simp
  ultimately show ?thesis by simp
qed

lemma init_ok:
  assumes "0 < c" "0 < r" "r < 1"
  shows "BloomFilter_init c r =
     Inr \<lparr>capacity = c, element_count = 0, error_rate = r,
          size_bf = \<lceil>- (real_of_int c * ln r) / (ln 2)\<^sup>2\<rceil>,
          hash_count = \<lceil>(real_of_int \<lceil>- (real_of_int c * ln r) / (ln 2)\<^sup>2\<rceil> / real_of_int c) * ln 2\<rceil>,
          bit_array = replicate (nat \<lceil>- (real_of_int c * ln r) / (ln 2)\<^sup>2\<rceil>) False\<rparr>"
proof -
  have "0 < \<lceil>- (real_of_int c * ln r) / (ln 2)\<^sup>2\<rceil>"
    using size_formula_pos[OF assms] by linarith
  then have m: "\<not> \<lceil>- (real_of_int c * ln r) / (ln 2)\<^sup>2\<rceil> < 0" by linarith
  show ?thesis
    unfolding BloomFilter_init_def Let_def
    using assms m by (simp add: calc_size_eq calc_hash_count_eq del: ceiling_less_zero)
qed

lemma init_error: "\<not> (0 < c \<and> 0 < r \<and> r < 1) \<Longrightarrow> BloomFilter_init c r = Inl ValueError"
  by (auto simp: BloomFilter_init_def)

lemma init_wf: "BloomFilter_init c r = Inr f \<Longrightarrow> wf_filter f"
proof (cases "0 < c \<and> 0 < r \<and> r < 1")
  case True
  assume "BloomFilter_init c r = Inr f"
  with True init_ok[of c r] show ?thesis
    by (auto simp: wf_filter_def calc_size_eq calc_hash_count_eq)
next
  case False
  assume "BloomFilter_init c r = Inr f"
  with init_error[OF False] show ?thesis by simp
qed

lemma exp_two_thirds: "exp (2/3 :: real) < 2"
proof -
  have "exp (1/12 :: real) \<le> 1 + 1/12 + (1/12)\<^sup>2" by (rule exp_bound) simp_all
  then have a: "exp (1/12 :: real) \<le> 157/144" by (simp add: power2_eq_square)
  have "exp (2/3 :: real) = exp (of_nat 8 * (1/12))" by simp
  also have "\<dots> = exp (1/12 :: real) ^ 8" by (rule exp_of_nat_mult)
  also have "\<dots> \<le> (157/144) ^ 8" using a by (intro power_mono) simp_all
  also have "\<dots> < (2::real)" by (simp add: power_divide)
  finally show ?thesis .
qed

lemma ln2_gt_two_thirds: "2/3 < ln (2::real)"
proof -
  have "exp (2/3 :: real) < exp (ln 2)" using exp_two_thirds by simp
  then show ?thesis by (simp only: exp_less_cancel_iff)
qed

lemma ln_half: "ln (1/2 :: real) = - ln 2"
  by (simp add: ln_div)

lemma size_1_half: "\<lceil>- (real_of_int 1 * ln (1/2)) / (ln 2)\<^sup>2\<rceil> = (2::int)"
proof -
  have l: "2/3 < ln (2::real)" "ln (2::real) < 1" using ln2_gt_two_thirds ln_2_less_1 by simp_all
  have "- (real_of_int 1 * ln (1/2)) / (ln 2)\<^sup>2 = 1 / ln (2::real)"
    using l by (simp add: ln_half power2_eq_square)
  moreover have "1 < 1 / ln (2::real)" "1 / ln (2::real) \<le> 2"
    using l by (simp_all add: field_simps)
  ultimately show ?thesis by (intro ceiling_unique) simp_all
qed

lemma hash_1_half: "\<lceil>(real_of_int 2 / real_of_int 1) * ln 2\<rceil> = (2::int)"
  using ln2_gt_two_thirds ln_2_less_1 by (intro ceiling_unique) simp_all

lemma size_2_half: "\<lceil>- (real_of_int 2 * ln (1/2)) / (ln 2)\<^sup>2\<rceil> = (3::int)"
proof -
  have l: "2/3 < ln (2::real)" "ln (2::real) < 1" using ln2_gt_two_thirds ln_2_less_1 by simp_all
  have "- (real_of_int 2 * ln (1/2)) / (ln 2)\<^sup>2 = 2 / ln (2::real)"
    using l by (simp add: ln_half power2_eq_square)
  moreover have "2 < 2 / ln (2::real)" "2 / ln (2::real) \<le> 3"
    using l by (simp_all add: field_simps)
  ultimately show ?thesis by (intro ceiling_unique) simp_all
qed

lemma hash_2_half: "\<lceil>(real_of_int 3 / real_of_int 2) * ln 2\<rceil> = (2::int)"
  using ln2_gt_two_thirds ln_2_less_1 by (intro ceiling_unique) simp_all

lemma init_1_half: "BloomFilter_init 1 (1/2) = Inr filter_1_half"
  using init_ok[of 1 "1/2"] size_1_half hash_1_half
  by (simp add: filter_1_half_def numeral_2_eq_2)

lemma init_2_half: "BloomFilter_init 2 (1/2) = Inr filter_2_half"
  using init_ok[of 2 "1/2"] size_2_half hash_2_half
  by (simp add: filter_2_half_def numeral_3_eq_3)

lemma wf_filter_1_half: "wf_filter filter_1_half"
  using init_1_half by (rule init_wf)

lemma wf_filter_2_half: "wf_filter filter_2_half"
  using init_2_half by (rule init_wf)

subsection \<open>The loops of add and lookup\<close>

lemma py_index_mod:
  "0 < m \<Longrightarrow> length xs = nat m \<Longrightarrow> py_index xs (x mod m) = Inr (nat (x mod m))"
proof -
  assume m: "0 < m" and l: "length xs = nat m"
  have a: "\<not> x mod m < 0" using m by (simp add: not_less)
  have b: "x mod m < m" using m by simp
  show ?thesis using l m b by (simp add: py_index_def a)
qed

lemma setitem_mod:
  "0 < m \<Longrightarrow> length xs = nat m \<Longrightarrow> setitem xs (x mod m) v = Inr (xs[nat (x mod m) := v])"
  by (simp add: setitem_def py_index_mod)

lemma getitem_mod:
  "0 < m \<Longrightarrow> length xs = nat m \<Longrightarrow> getitem xs (x mod m) = Inr (xs ! nat (x mod m))"
  by (simp add: getitem_def py_index_mod)

lemma probe_less: "0 < m \<Longrightarrow> nat (x mod m) < nat m"
  by simp

lemma add_loop_ok:
  "0 < size_bf f \<Longrightarrow> length (bit_array f) = nat (size_bf f) \<Longrightarrow>
   \<exists>bs. add_loop h e seeds f = Inr (f\<lparr>bit_array := bs\<rparr>) \<and>
        length bs = length (bit_array f) \<and>
        (\<forall>p < length bs. bs ! p =
           (bit_array f ! p \<or> p \<in> (\<lambda>seed. nat (h e seed mod size_bf f)) ` set seeds))"
proof (induction seeds arbitrary: f)
  case Nil
  have "add_loop h e [] f = Inr (f\<lparr>bit_array := bit_array f\<rparr>)" by simp
  then show ?case by (intro exI[of _ "bit_array f"]) simp
next
  case (Cons seed seeds)
  let ?g = "f\<lparr>bit_array := (bit_array f)[nat (h e seed mod size_bf f) := True]\<rparr>"
  have g: "0 < size_bf ?g" "length (bit_array ?g) = nat (size_bf ?g)"
    using Cons.prems by simp_all
  from Cons.IH[OF g] obtain bs where
    bs: "add_loop h e seeds ?g = Inr (?g\<lparr>bit_array := bs\<rparr>)"
        "length bs = length (bit_array ?g)"
        "\<forall>p < length bs. bs ! p =
           (bit_array ?g ! p \<or> p \<in> (\<lambda>seed. nat (h e seed mod size_bf ?g)) ` set seeds)"
    by blast
  have step: "add_loop h e (seed # seeds) f = Inr (f\<lparr>bit_array := bs\<rparr>)"
    using Cons.prems bs(1) by (simp add: setitem_mod)
  have len: "length bs = length (bit_array f)" using bs(2) by simp
  have bits: "bs ! p =
           (bit_array f ! p \<or> p \<in> (\<lambda>seed. nat (h e seed mod size_bf f)) ` set (seed # seeds))"
    if "p < length bs" for p
  proof -
    have "bs ! p = ((bit_array f)[nat (h e seed mod size_bf f) := True] ! p
            \<or> p \<in> (\<lambda>seed. nat (h e seed mod size_bf f)) ` set seeds)"
      using bs(3) that by simp
    moreover have "(bit_array f)[nat (h e seed mod size_bf f) := True] ! p =
        (bit_array f ! p \<or> p = nat (h e seed mod size_bf f))"
      using that len by (cases "p = nat (h e seed mod size_bf f)") simp_all
    ultimately show ?thesis by auto
  qed
  from step len bits show ?case by blast
qed

lemma BloomFilter_add_ok:
  assumes "wf_filter f"
  shows "BloomFilter_add h f e =
     Inr (f\<lparr>element_count := element_count f + 1, bit_array := bits_after h f [e]\<rparr>)"
proof -
  have s: "0 < size_bf f" using wf_size_pos[OF assms] by simp
  have l: "length (bit_array f) = nat (size_bf f)" using assms by (simp add: wf_filter_def)
  from add_loop_ok[OF s l, of h e "xrange (hash_count f)"] obtain bs where
    bs: "add_loop h e (xrange (hash_count f)) f = Inr (f\<lparr>bit_array := bs\<rparr>)"
        "length bs = length (bit_array f)"
        "\<forall>p < length bs. bs ! p =
           (bit_array f ! p \<or> p \<in> (\<lambda>seed. nat (h e seed mod size_bf f)) ` set (xrange (hash_count f)))"
    by blast
  have "bs = bits_after h f [e]"
    using bs(2,3) by (intro nth_equalityI) (simp_all add: bits_after_def probes_def)
  then show ?thesis using bs(1) by (simp add: BloomFilter_add_def)
qed

lemma lookup_loop_ok:
  "0 < size_bf f \<Longrightarrow> length (bit_array f) = nat (size_bf f) \<Longrightarrow>
   lookup_loop h e seeds f = Inr (\<forall>seed \<in> set seeds. bit_array f ! nat (h e seed mod size_bf f))"
  by (induction seeds) (auto simp: getitem_mod)

lemma BloomFilter_lookup_ok:
  assumes "wf_filter f"
  shows "BloomFilter_lookup h f e =
     Inr (\<forall>p \<in> probes h (size_bf f) (hash_count f) e. bit_array f ! p)"
proof -
  have s: "0 < size_bf f" using wf_size_pos[OF assms] by simp
  have l: "length (bit_array f) = nat (size_bf f)" using assms by (simp add: wf_filter_def)
  show ?thesis by (simp add: BloomFilter_lookup_def lookup_loop_ok[OF s l] probes_def)
qed

lemma probes_less: "0 < m \<Longrightarrow> p \<in> probes h m k e \<Longrightarrow> p < nat m"
  by (auto simp: probes_def)

lemma length_bits_after [simp]: "length (bits_after h f xs) = length (bit_array f)"
  by (simp add: bits_after_def)


lemma bits_after_Nil [simp]: "bits_after h f [] = bit_array f"
  by (simp add: bits_after_def map_nth)

lemma calc_size_update:
  "calc_size (f\<lparr>element_count := n, bit_array := bs\<rparr>) = calc_size f"
  by (simp add: calc_size_def)

lemma calc_hash_count_update:
  "calc_hash_count (f\<lparr>element_count := n, bit_array := bs\<rparr>) = calc_hash_count f"
  by (simp add: calc_hash_count_def)

lemma wf_filter_update:
  "wf_filter f \<Longrightarrow> length bs = length (bit_array f) \<Longrightarrow>
   wf_filter (f\<lparr>element_count := n, bit_array := bs\<rparr>)"
  by (simp add: wf_filter_def calc_size_update calc_hash_count_update)





subsection \<open>union and intersection\<close>

lemma init_of_wf:
  assumes "wf_filter a"
  shows "BloomFilter_init (capacity a) (error_rate a) =
     Inr (a\<lparr>element_count := 0, bit_array := replicate (nat (size_bf a)) False\<rparr>)"
proof -
  from assms have p: "0 < capacity a" "0 < error_rate a" "error_rate a < 1"
    and s: "calc_size a = Inr (size_bf a)" and k: "calc_hash_count a = Inr (hash_count a)"
    by (simp_all add: wf_filter_def)
  have s': "\<lceil>- (real_of_int (capacity a) * ln (error_rate a)) / (ln 2)\<^sup>2\<rceil> = size_bf a"
    using s calc_size_eq[OF p(2)] by simp
  have k': "\<lceil>(real_of_int (size_bf a) / real_of_int (capacity a)) * ln 2\<rceil> = hash_count a"
    using k calc_hash_count_eq[of a] p(1) by simp
  show ?thesis
    unfolding init_ok[OF p] s' k' by simp
qed

lemma union_ok:
  assumes "wf_filter a" "wf_filter b" "size_bf a = size_bf b" "hash_count a = hash_count b"
  shows "BloomFilter_union a b =
     Inr (Some (a\<lparr>element_count := element_count a + element_count b,
                   bit_array := map2 (\<or>) (bit_array a) (bit_array b)\<rparr>))"
proof -
  have l: "length (bit_array a) = length (bit_array b)"
    using assms by (simp add: wf_filter_def)
  show ?thesis
    using assms(3,4) l by (simp add: BloomFilter_union_def init_of_wf[OF assms(1)] bitarray_or_def)
qed

lemma intersection_result:
  assumes "wf_filter a" "wf_filter b" "size_bf a = size_bf b" "hash_count a = hash_count b"
    and "BloomFilter_intersection a b = Inr r"
  shows "\<exists>n. r = Some (a\<lparr>bit_array := map2 (\<and>) (bit_array a) (bit_array b),
                           element_count := n\<rparr>)"
proof -
  have l: "length (bit_array a) = length (bit_array b)"
    using assms by (simp add: wf_filter_def)
  show ?thesis
    using assms(3,4,5) l
    by (auto simp: BloomFilter_intersection_def init_of_wf[OF assms(1)] bitarray_and_def
             split: sum.splits)
qed


lemma wf_filter_update':
  "wf_filter f \<Longrightarrow> length bs = length (bit_array f) \<Longrightarrow>
   wf_filter (f\<lparr>bit_array := bs, element_count := n\<rparr>)"
proof -
  assume "wf_filter f" "length bs = length (bit_array f)"
  then have w: "wf_filter (f\<lparr>element_count := n, bit_array := bs\<rparr>)" by (rule wf_filter_update)
  have e: "f\<lparr>bit_array := bs, element_count := n\<rparr> = f\<lparr>element_count := n, bit_array := bs\<rparr>"
    by simp
  show ?thesis unfolding e by (rule w)
qed

lemma wf_probe_in_range:
  "wf_filter f \<Longrightarrow> p \<in> probes h (size_bf f) (hash_count f) e \<Longrightarrow> p < length (bit_array f)"
  using probes_less[of "size_bf f" p h "hash_count f" e] wf_size_pos[of f]
  by (simp add: wf_filter_def)


lemma lookup_intersection:
  assumes "wf_filter a" "wf_filter b" "size_bf a = size_bf b" "hash_count a = hash_count b"
  shows "BloomFilter_lookup h
           (a\<lparr>bit_array := map2 (\<and>) (bit_array a) (bit_array b), element_count := n\<rparr>) e =
         Inr (\<forall>p \<in> probes h (size_bf a) (hash_count a) e. bit_array a ! p \<and> bit_array b ! p)"
proof -
  have l: "length (bit_array a) = length (bit_array b)"
    using assms by (simp add: wf_filter_def)
  have w: "wf_filter (a\<lparr>bit_array := map2 (\<and>) (bit_array a) (bit_array b), element_count := n\<rparr>)"
    using assms(1) l by (intro wf_filter_update') simp_all
  show ?thesis
    using l wf_probe_in_range[OF assms(1)]
    by (simp add: BloomFilter_lookup_ok[OF w] cong: ball_cong)
qed

lemma intersection_conservative:
  assumes "wf_filter a" "wf_filter b" "size_bf a = size_bf b" "hash_count a = hash_count b"
    and "BloomFilter_intersection a b = Inr r"
  shows "\<exists>i. r = Some i \<and>
           (BloomFilter_lookup h i e = Inr True \<longleftrightarrow>
              BloomFilter_lookup h a e = Inr True \<and> BloomFilter_lookup h b e = Inr True)"
proof -
  from intersection_result[OF assms] obtain n where
    r: "r = Some (a\<lparr>bit_array := map2 (\<and>) (bit_array a) (bit_array b), element_count := n\<rparr>)"
    by blast
  show ?thesis
    unfolding r
    by (auto simp: lookup_intersection[OF assms(1-4)] BloomFilter_lookup_ok[OF assms(1)]
          BloomFilter_lookup_ok[OF assms(2)] assms(3)[symmetric] assms(4)[symmetric])
qed

lemma union_wf:
  assumes "wf_filter a" "wf_filter b" "BloomFilter_union a b = Inr (Some u)"
  shows "wf_filter u"
proof -
  have c: "size_bf a = size_bf b" "hash_count a = hash_count b"
    using assms(3) by (auto simp: BloomFilter_union_def split: if_splits)
  have l: "length (bit_array a) = length (bit_array b)"
    using assms(1,2) c by (simp add: wf_filter_def)
  have "u = a\<lparr>element_count := element_count a + element_count b,
               bit_array := map2 (\<or>) (bit_array a) (bit_array b)\<rparr>"
    using assms(3) union_ok[OF assms(1,2) c] by simp
  then show ?thesis using assms(1) l by (simp add: wf_filter_update)
qed

lemma intersection_wf:
  assumes "wf_filter a" "wf_filter b" "BloomFilter_intersection a b = Inr (Some i)"
  shows "wf_filter i"
proof -
  have c: "size_bf a = size_bf b" "hash_count a = hash_count b"
    using assms(3) by (auto simp: BloomFilter_intersection_def split: if_splits)
  have l: "length (bit_array a) = length (bit_array b)"
    using assms(1,2) c by (simp add: wf_filter_def)
  from intersection_result[OF assms(1,2) c assms(3)] obtain n where
    "i = a\<lparr>bit_array := map2 (\<and>) (bit_array a) (bit_array b), element_count := n\<rparr>"
    by auto
  then show ?thesis using assms(1) l by (simp add: wf_filter_update')
qed

subsection \<open>The concrete filters\<close>

lemma xrange_2: "xrange 2 = [0, 1]"
  by (simp add: xrange_def numeral_2_eq_2 upt_rec)

lemma add_a: "BloomFilter_add example_hash filter_1_half ''a'' = Inr filter_with_a"
  by (simp add: BloomFilter_add_def filter_1_half_def filter_with_a_def xrange_2
        example_hash_def setitem_def py_index_def)

lemma add_bc: "BloomFilter_add example_hash filter_1_half ''bc'' = Inr filter_with_bc"
  by (simp add: BloomFilter_add_def filter_1_half_def filter_with_bc_def xrange_2
        example_hash_def setitem_def py_index_def)



lemma lookup_a_with_a: "BloomFilter_lookup example_hash filter_with_a ''a'' = Inr True"
  by (simp add: BloomFilter_lookup_def filter_1_half_def filter_with_a_def xrange_2
        example_hash_def getitem_def py_index_def)

lemma lookup_a_with_bc: "BloomFilter_lookup example_hash filter_with_bc ''a'' = Inr False"
  by (simp add: BloomFilter_lookup_def filter_1_half_def filter_with_bc_def xrange_2
        example_hash_def getitem_def py_index_def)

lemma add_all_a: "add_all example_hash filter_1_half [''a''] = Inr filter_with_a"
  by (simp add: add_a)


subsection \<open>The outcome of intersection\<close>

lemma bitarray_count_le: "bitarray_count xs \<le> length xs"
  by (simp add: bitarray_count_def)

lemma bitarray_count_full: "bitarray_count xs = length xs \<longleftrightarrow> (\<forall>b \<in> set xs. b)"
proof (induction xs)
  case Nil
  then show ?case by (simp add: bitarray_count_def)
next
  case (Cons x xs)
  have "length (filter (\<lambda>b. b) xs) \<le> length xs" by (rule length_filter_le)
  then have "length (filter (\<lambda>b. b) xs) \<noteq> Suc (length xs)" by linarith
  with Cons show ?case by (auto simp: bitarray_count_def)
qed

lemma calc_element_count_outcome:
  assumes "wf_filter f"
  shows "calc_element_count f =
     (if bitarray_count (bit_array f) = length (bit_array f) then Inl ValueError
      else Inr \<lceil>- (real_of_int (size_bf f) *
                    ln (1 - real (bitarray_count (bit_array f)) / real_of_int (size_bf f)))
                 / real_of_int (hash_count f)\<rceil>)"
proof -
  have s: "0 < size_bf f" using wf_size_pos[OF assms] by simp
  have k: "hash_count f \<noteq> 0" using wf_hash_count_pos[OF assms] by simp
  have l: "length (bit_array f) = nat (size_bf f)" using assms by (simp add: wf_filter_def)
  have le: "real (bitarray_count (bit_array f)) \<le> real_of_int (size_bf f)"
    using bitarray_count_le[of "bit_array f"] l s by linarith
  have "1 - real (bitarray_count (bit_array f)) / real_of_int (size_bf f) \<le> 0 \<longleftrightarrow>
        real_of_int (size_bf f) \<le> real (bitarray_count (bit_array f))"
    using s by (simp add: field_simps)
  also have "\<dots> \<longleftrightarrow> bitarray_count (bit_array f) = length (bit_array f)"
    using le l s by linarith
  finally have c: "1 - real (bitarray_count (bit_array f)) / real_of_int (size_bf f) \<le> 0 \<longleftrightarrow>
        bitarray_count (bit_array f) = length (bit_array f)" .
  show ?thesis
    unfolding calc_element_count_def Let_def using s k c by (simp only: py_int_of_int) simp
qed

lemma intersection_outcome:
  assumes "wf_filter a" "wf_filter b" "size_bf a = size_bf b" "hash_count a = hash_count b"
  shows "(BloomFilter_intersection a b = Inl ValueError \<and>
            bitarray_count (map2 (\<and>) (bit_array a) (bit_array b)) = length (bit_array a)) \<or>
         (\<exists>n. BloomFilter_intersection a b =
                 Inr (Some (a\<lparr>bit_array := map2 (\<and>) (bit_array a) (bit_array b),
                               element_count := n\<rparr>)) \<and>
              bitarray_count (map2 (\<and>) (bit_array a) (bit_array b)) < length (bit_array a))"
proof -
  have l: "length (bit_array a) = length (bit_array b)"
    using assms by (simp add: wf_filter_def)
  let ?bs = "map2 (\<and>) (bit_array a) (bit_array b)"
  let ?r = "a\<lparr>element_count := 0, bit_array := replicate (nat (size_bf a)) False\<rparr>\<lparr>bit_array := ?bs\<rparr>"
  have lb: "length ?bs = length (bit_array a)" using l by simp
  have w: "wf_filter ?r" using wf_filter_update[OF assms(1), of ?bs 0] lb by simp
  have i: "BloomFilter_intersection a b =
     (case calc_element_count ?r of Inl err \<Rightarrow> Inl err
      | Inr n \<Rightarrow> Inr (Some (a\<lparr>bit_array := ?bs, element_count := n\<rparr>)))"
    using assms(3,4) l
    by (simp add: BloomFilter_intersection_def init_of_wf[OF assms(1)] bitarray_and_def
          cong: sum.case_cong)
  have c: "bitarray_count ?bs \<le> length (bit_array a)"
    using bitarray_count_le[of ?bs] lb by simp
  show ?thesis
  proof (cases "bitarray_count ?bs = length (bit_array a)")
    case True
    then show ?thesis unfolding i calc_element_count_outcome[OF w] using lb by simp
  next
    case False
    then have "bitarray_count ?bs < length (bit_array a)" using c by simp
    then show ?thesis unfolding i calc_element_count_outcome[OF w] using lb False by auto
  qed
qed

section \<open>Properties of ScalableBloomFilter\<close>

lemma py_index_last:
  "xs \<noteq> [] \<Longrightarrow> py_index xs (- 1) = Inr (length xs - 1)"
  by (cases xs) (auto simp: py_index_def nat_diff_distrib)

lemma py_index_last_empty: "py_index [] (- 1) = Inl IndexError"
  by (simp add: py_index_def)

lemma add_to_last_filters:
  "add_to_last h st s e = Inr (st', s') \<Longrightarrow> filters s' = filters s"
  by (auto simp: add_to_last_def split: sum.splits)

lemma scalable_add_filters:
  assumes "ScalableBloomFilter_add h st s e = Inr (st', s')"
  shows "filters s \<noteq> [] \<and> (filters s' = filters s \<or> filters s' = filters s @ [next_ref st])"
proof -
  have ne: "filters s \<noteq> []"
    using assms by (auto simp: ScalableBloomFilter_add_def py_index_last_empty)
  have "filters s' = filters s \<or> filters s' = filters s @ [next_ref st]"
    using assms
    by (auto simp: ScalableBloomFilter_add_def alloc_def py_index_last[OF ne]
          split: sum.splits if_splits dest!: add_to_last_filters)
  with ne show ?thesis by simp
qed

lemma scalable_union_filters:
  "ScalableBloomFilter_union st s b = Inr (st', r) \<Longrightarrow> filters r = filters s @ filters b"
  by (auto simp: ScalableBloomFilter_union_def split: sum.splits)

lemma apply_operation_prefix:
  "apply_operation h st s op = Inr (st', s') \<Longrightarrow> prefix (filters s) (filters s')"
proof (cases op)
  case (Add x)
  assume "apply_operation h st s op = Inr (st', s')"
  with Add scalable_add_filters[of h st s x st' s'] show ?thesis by auto
next
  case (Lookup x)
  assume "apply_operation h st s op = Inr (st', s')"
  with Lookup show ?thesis by (auto split: sum.splits)
next
  case (Contains x)
  assume "apply_operation h st s op = Inr (st', s')"
  with Contains show ?thesis by (auto split: sum.splits)
next
  case (Union b)
  assume "apply_operation h st s op = Inr (st', s')"
  with Union scalable_union_filters[of st s b st' s'] show ?thesis by auto
qed

lemma apply_operations_prefix:
  "apply_operations h st s ops = Inr (st', s') \<Longrightarrow> prefix (filters s) (filters s')"
proof (induction ops arbitrary: st s)
  case Nil
  then show ?case by simp
next
  case (Cons op ops)
  from Cons.prems obtain st1 s1 where
    1: "apply_operation h st s op = Inr (st1, s1)" and
    2: "apply_operations h st1 s1 ops = Inr (st', s')"
    by (auto split: sum.splits)
  from apply_operation_prefix[OF 1] Cons.IH[OF 2] show ?case by (rule prefix_order.trans)
qed

lemma scalable_init_ok:
  assumes "0 < cap" "0 < rate" "rate < 1" "0 < factor" "mode = 1 \<or> mode = 2"
  shows "\<exists>f. BloomFilter_init cap rate = Inr f \<and>
    ScalableBloomFilter_init st cap rate factor mode =
     Inr (st\<lparr>heap := (heap st)(next_ref st := f), next_ref := Suc (next_ref st)\<rparr>,
          \<lparr>initial_capacity = cap, element_count_s = 0, error_rate_s = rate,
           scale_factor = factor, scale_mode = mode, filters = [next_ref st]\<rparr>)"
  using assms init_ok[of cap rate]
  by (auto simp: ScalableBloomFilter_init_def alloc_def)

lemma scalable_init_error:
  "\<not> (0 < cap \<and> 0 < rate \<and> rate < 1 \<and> 0 < factor \<and> (mode = 1 \<or> mode = 2)) \<Longrightarrow>
   ScalableBloomFilter_init st cap rate factor mode = Inl ValueError"
  by (auto simp: ScalableBloomFilter_init_def)

lemma nth_last: "xs \<noteq> [] \<Longrightarrow> xs ! (length xs - Suc 0) = last xs"
  by (simp add: last_conv_nth)

lemma add_to_last_nonempty:
  assumes "filters s \<noteq> []"
  shows "add_to_last h st s e =
     (case BloomFilter_add h (heap st (last (filters s))) e of
        Inl err \<Rightarrow> Inl err
      | Inr f' \<Rightarrow>
          Inr (st\<lparr>heap := (heap st)(last (filters s) := f')\<rparr>,
               s\<lparr>element_count_s := element_count_s s + 1\<rparr>))"
  unfolding add_to_last_def py_index_last[OF assms]
  using assms by (simp add: nth_last cong: sum.case_cong)

lemma scalable_add_nonempty:
  assumes "filters s \<noteq> []"
  shows "ScalableBloomFilter_add h st s e =
     (if is_full (heap st (last (filters s))) then
        (case BloomFilter_init (calc_next_capacity s) (error_rate_s s) of
           Inl err \<Rightarrow> Inl err
         | Inr f \<Rightarrow>
             (case alloc st f of
                (st', a) \<Rightarrow> add_to_last h st' (s\<lparr>filters := filters s @ [a]\<rparr>) e))
      else add_to_last h st s e)"
  unfolding ScalableBloomFilter_add_def py_index_last[OF assms]
  using assms by (simp add: nth_last cong: sum.case_cong)

lemma scalable_add_not_full:
  assumes "filters s \<noteq> []" "wf_filter (heap st (last (filters s)))"
    "\<not> is_full (heap st (last (filters s)))"
  shows "ScalableBloomFilter_add h st s e =
     Inr (st\<lparr>heap := (heap st)(last (filters s) :=
                (heap st (last (filters s)))
                  \<lparr>element_count := element_count (heap st (last (filters s))) + 1,
                   bit_array := bits_after h (heap st (last (filters s))) [e]\<rparr>)\<rparr>,
          s\<lparr>element_count_s := element_count_s s + 1\<rparr>)"
  using assms(3)
  by (simp add: scalable_add_nonempty[OF assms(1)] add_to_last_nonempty[OF assms(1)]
        BloomFilter_add_ok[OF assms(2)])

lemma scalable_add_full:
  assumes "filters s \<noteq> []" "is_full (heap st (last (filters s)))"
    "BloomFilter_init (calc_next_capacity s) (error_rate_s s) = Inr f"
  shows "ScalableBloomFilter_add h st s e =
     Inr (st\<lparr>heap := (heap st)(next_ref st :=
                f\<lparr>element_count := element_count f + 1, bit_array := bits_after h f [e]\<rparr>),
             next_ref := Suc (next_ref st)\<rparr>,
          s\<lparr>filters := filters s @ [next_ref st], element_count_s := element_count_s s + 1\<rparr>)"
proof -
  have w: "wf_filter f" using assms(3) by (rule init_wf)
  have n: "filters (s\<lparr>filters := filters s @ [next_ref st]\<rparr>) \<noteq> []" by simp
  show ?thesis
    using assms(2,3)
    by (simp add: scalable_add_nonempty[OF assms(1)] alloc_def add_to_last_nonempty[OF n]
          BloomFilter_add_ok[OF w])
qed



lemma init_capacity: "BloomFilter_init cap rate = Inr f \<Longrightarrow> capacity f = cap \<and> 0 < cap \<and> element_count f = 0"
  using init_ok[of cap rate] init_error[of cap rate]
  by (cases "0 < cap \<and> 0 < rate \<and> rate < 1") auto



lemma calc_next_capacity_int:
  assumes "scale_factor s = of_int k"
  shows "calc_next_capacity s =
     (if scale_mode s = SCALE_MODE_LINEAR
      then initial_capacity s * (k * int (length (filters s)))
      else initial_capacity s * k ^ length (filters s))"
proof -
  have "real_of_int (initial_capacity s) * (of_int k * real (length (filters s))) =
        of_int (initial_capacity s * (k * int (length (filters s))))" by simp
  moreover have "real_of_int (initial_capacity s) * of_int k ^ length (filters s) =
        of_int (initial_capacity s * k ^ length (filters s))" by simp
  ultimately show ?thesis
    unfolding calc_next_capacity_def assms by (simp only: py_int_of_int)
qed



subsection \<open>The concrete scalable filters\<close>





lemma lookup_bc_example:
  "BloomFilter_lookup example_hash filter_with_bc ''bc'' = Inr True"
  by (simp add: BloomFilter_lookup_def filter_1_half_def filter_with_bc_def xrange_2
        example_hash_def getitem_def py_index_def)

subsection \<open>Sequences of operations\<close>

lemma apply_operations_append:
  "apply_operations h st s (ops1 @ ops2) =
     (case apply_operations h st s ops1 of
        Inl err \<Rightarrow> Inl err
      | Inr (st', s') \<Rightarrow> apply_operations h st' s' ops2)"
  by (induction ops1 arbitrary: st s) (auto split: sum.splits)

lemma scalable_init_filters:
  assumes "ScalableBloomFilter_init st0 cap rate factor mode = Inr (st, s)"
  shows "filters s = [next_ref st0] \<and> capacity (heap st (next_ref st0)) = cap \<and>
         element_count (heap st (next_ref st0)) = 0"
proof (cases "0 < cap \<and> 0 < rate \<and> rate < 1 \<and> 0 < factor \<and> (mode = 1 \<or> mode = 2)")
  case True
  with scalable_init_ok[of cap rate factor mode st0] obtain f where
    f: "BloomFilter_init cap rate = Inr f" and
    i: "ScalableBloomFilter_init st0 cap rate factor mode =
     Inr (st0\<lparr>heap := (heap st0)(next_ref st0 := f), next_ref := Suc (next_ref st0)\<rparr>,
          \<lparr>initial_capacity = cap, element_count_s = 0, error_rate_s = rate,
           scale_factor = factor, scale_mode = mode, filters = [next_ref st0]\<rparr>)"
    by blast
  from i assms init_capacity[OF f] show ?thesis by auto
next
  case False
  from scalable_init_error[OF False, of st0] assms show ?thesis by simp
qed

section \<open>The claims\<close>





text \<open>
  C3. The claim: for compatible filters, \<open>intersection(A, B).lookup(e)\<close> is \<open>True\<close> only
  if both operands answer \<open>True\<close>, and it is \<open>True\<close> for every element added to both.
  \<open>intersection\<close> re-estimates the element count with \<open>calc_element_count\<close>, whose
  logarithm is taken of \<open>1 - x/size\<close>. When every bit of the result is set this is
  \<open>log(0)\<close>: here \<open>BloomFilter(1, 0.5)\<close> has both its bits set by one \<open>add\<close>, the
  element is found by \<open>lookup\<close>, and intersecting the filter with itself raises
  \<open>ValueError\<close> instead of returning a filter. (\<open>intersection_outcome\<close> and
  \<open>intersection_conservative\<close> say what happens otherwise.)
\<close>

theorem intersection_raises_when_saturated:
  "BloomFilter_init 1 (1/2) = Inr filter_1_half \<and>
   add_all example_hash filter_1_half [''a''] = Inr filter_with_a \<and>
   BloomFilter_lookup example_hash filter_with_a ''a'' = Inr True \<and>
   BloomFilter_intersection filter_with_a filter_with_a = Inl ValueError"
proof -
  have "BloomFilter_intersection filter_with_a filter_with_a = Inl ValueError"
    by (simp add: BloomFilter_intersection_def filter_with_a_def filter_1_half_def
          init_1_half[unfolded filter_1_half_def] bitarray_and_def calc_element_count_def
          bitarray_count_def)
  with init_1_half add_all_a lookup_a_with_a show ?thesis by simp
qed

text \<open>
  C4, as amended. For filters of different size or different hash count, \<open>union\<close> and
  \<open>intersection\<close> return \<open>None\<close>: no filter is returned, and no exception is raised.
\<close>

theorem incompatible_returns_None:
  assumes "size_bf a \<noteq> size_bf b \<or> hash_count a \<noteq> hash_count b"
  shows "BloomFilter_union a b = Inr None \<and> BloomFilter_intersection a b = Inr None"
  using assms by (auto simp: BloomFilter_union_def BloomFilter_intersection_def)

theorem incompatible_returns_None_witness:
  "size_bf filter_with_a \<noteq> size_bf filter_2_half \<and>
   BloomFilter_union filter_with_a filter_2_half = Inr None \<and>
   BloomFilter_intersection filter_with_a filter_2_half = Inr None"
proof -
  have d: "size_bf filter_with_a \<noteq> size_bf filter_2_half"
    by (simp add: filter_with_a_def filter_1_half_def filter_2_half_def)
  then have "size_bf filter_with_a \<noteq> size_bf filter_2_half \<or>
             hash_count filter_with_a \<noteq> hash_count filter_2_half" by simp
  from incompatible_returns_None[OF this] d show ?thesis by simp
qed

text \<open>
  C4 as stated asks for an error to be signalled. \<open>BloomFilter(1, 0.5)\<close> has 2 bits and
  \<open>BloomFilter(2, 0.5)\<close> has 3; both operations return normally, with \<open>None\<close>.
\<close>

theorem incompatible_not_raised:
  "BloomFilter_init 1 (1/2) = Inr filter_1_half \<and>
   BloomFilter_init 2 (1/2) = Inr filter_2_half \<and>
   size_bf filter_1_half \<noteq> size_bf filter_2_half \<and>
   BloomFilter_union filter_1_half filter_2_half = Inr None \<and>
   \<not> isl (BloomFilter_union filter_1_half filter_2_half) \<and>
   BloomFilter_intersection filter_1_half filter_2_half = Inr None \<and>
   \<not> isl (BloomFilter_intersection filter_1_half filter_2_half)"
  using init_1_half init_2_half
  by (simp add: BloomFilter_union_def BloomFilter_intersection_def filter_1_half_def
        filter_2_half_def)

text \<open>
  C5. The constructor of \<open>BloomFilter\<close> raises \<open>ValueError\<close> exactly when the capacity
  is not positive or the error rate is not strictly between 0 and 1, and returns a filter
  otherwise. The constructor of \<open>ScalableBloomFilter\<close> raises \<open>ValueError\<close> exactly when
  the initial capacity is not positive, the error rate is not strictly between 0 and 1,
  the scale factor is not positive or the scale mode is neither constant, and returns a
  scalable filter otherwise. A raising constructor returns no object and no store.
\<close>

theorem construction_fails_iff:
  "(BloomFilter_init cap rate = Inl ValueError) = (cap \<le> 0 \<or> rate \<le> 0 \<or> 1 \<le> rate) \<and>
   (\<exists>f. BloomFilter_init cap rate = Inr f) = (0 < cap \<and> 0 < rate \<and> rate < 1) \<and>
   (ScalableBloomFilter_init st cap rate factor mode = Inl ValueError) =
     (cap \<le> 0 \<or> rate \<le> 0 \<or> 1 \<le> rate \<or> factor \<le> 0 \<or>
      (mode \<noteq> SCALE_MODE_LINEAR \<and> mode \<noteq> SCALE_MODE_EXPONENTIAL)) \<and>
   (\<exists>st' s. ScalableBloomFilter_init st cap rate factor mode = Inr (st', s)) =
     (0 < cap \<and> 0 < rate \<and> rate < 1 \<and> 0 < factor \<and>
      (mode = SCALE_MODE_LINEAR \<or> mode = SCALE_MODE_EXPONENTIAL))"
proof -
  have b: "(BloomFilter_init cap rate = Inl ValueError) = (cap \<le> 0 \<or> rate \<le> 0 \<or> 1 \<le> rate)"
    using init_ok[of cap rate] init_error[of cap rate]
    by (cases "0 < cap \<and> 0 < rate \<and> rate < 1") auto
  have b': "(\<exists>f. BloomFilter_init cap rate = Inr f) = (0 < cap \<and> 0 < rate \<and> rate < 1)"
    using init_ok[of cap rate] init_error[of cap rate]
    by (cases "0 < cap \<and> 0 < rate \<and> rate < 1") auto
  have s: "(ScalableBloomFilter_init st cap rate factor mode = Inl ValueError) =
     (cap \<le> 0 \<or> rate \<le> 0 \<or> 1 \<le> rate \<or> factor \<le> 0 \<or>
      (mode \<noteq> SCALE_MODE_LINEAR \<and> mode \<noteq> SCALE_MODE_EXPONENTIAL))"
    using scalable_init_ok[of cap rate factor mode st] scalable_init_error[of cap rate factor mode st]
    by (cases "0 < cap \<and> 0 < rate \<and> rate < 1 \<and> 0 < factor \<and> (mode = 1 \<or> mode = 2)")
       (auto simp: SCALE_MODE_LINEAR_def SCALE_MODE_EXPONENTIAL_def)
  have s': "(\<exists>st' s. ScalableBloomFilter_init st cap rate factor mode = Inr (st', s)) =
     (0 < cap \<and> 0 < rate \<and> rate < 1 \<and> 0 < factor \<and>
      (mode = SCALE_MODE_LINEAR \<or> mode = SCALE_MODE_EXPONENTIAL))"
    using scalable_init_ok[of cap rate factor mode st] scalable_init_error[of cap rate factor mode st]
    by (cases "0 < cap \<and> 0 < rate \<and> rate < 1 \<and> 0 < factor \<and> (mode = 1 \<or> mode = 2)")
       (auto simp: SCALE_MODE_LINEAR_def SCALE_MODE_EXPONENTIAL_def)
  from b b' s s' show ?thesis by blast
qed








text \<open>
  C9. The constructor of a scalable filter seeds the list with exactly one filter, of
  the initial capacity. After any sequence of operations the list is not empty, and
  the list at any point of a sequence is a prefix of the list at any later point:
  references are only appended, none is removed, replaced or moved. For \<open>union\<close> the
  later list is that of the returned filter (the one filter its constructor call
  seeded is dropped inside \<open>union\<close>, before any caller sees the new object).
\<close>

theorem filters_never_empty_only_grow:
  assumes "ScalableBloomFilter_init st0 cap rate factor mode = Inr (st, s)"
    and "apply_operations h st s ops1 = Inr (st1, s1)"
    and "apply_operations h st1 s1 ops2 = Inr (st2, s2)"
  shows "(\<exists>a. filters s = [a] \<and> capacity (heap st a) = cap) \<and>
         filters s1 \<noteq> [] \<and> prefix (filters s1) (filters s2)"
proof -
  from scalable_init_filters[OF assms(1)]
  have i: "filters s = [next_ref st0]" "capacity (heap st (next_ref st0)) = cap" by simp_all
  have "prefix (filters s) (filters s1)" using assms(2) by (rule apply_operations_prefix)
  with i(1) have n: "filters s1 \<noteq> []" by auto
  have "prefix (filters s1) (filters s2)" using assms(3) by (rule apply_operations_prefix)
  with i n show ?thesis by simp
qed

theorem filters_never_empty_only_grow_witness:
  "\<exists>st s st1 s1 st2 s2.
     ScalableBloomFilter_init initial_store 1 (1/2) 2 SCALE_MODE_LINEAR = Inr (st, s) \<and>
     apply_operations example_hash st s [Add ''bc'', Lookup ''bc''] = Inr (st1, s1) \<and>
     apply_operations example_hash st1 s1 [Add ''a'', Union scalable_two] = Inr (st2, s2) \<and>
     filters s = [0] \<and> capacity (heap st 0) = 1 \<and> filters s1 = [0] \<and>
     filters s2 = [0, 1, 0] \<and> prefix (filters s1) (filters s2)"
proof -
  let ?st = "initial_store\<lparr>heap := (heap initial_store)(0 := filter_1_half), next_ref := 1\<rparr>"
  let ?s = "\<lparr>initial_capacity = 1, element_count_s = 0, error_rate_s = 1/2,
           scale_factor = 2, scale_mode = 1, filters = [0]\<rparr>"
  have i: "ScalableBloomFilter_init initial_store 1 (1/2) 2 SCALE_MODE_LINEAR = Inr (?st, ?s)"
    using scalable_init_ok[of 1 "1/2" 2 1 initial_store] init_1_half
    by (simp add: SCALE_MODE_LINEAR_def initial_store_def)
  let ?st1 = "?st\<lparr>heap := (heap ?st)(0 := filter_with_bc)\<rparr>"
  let ?s1 = "?s\<lparr>element_count_s := 1\<rparr>"
  have b: "filter_1_half\<lparr>element_count := element_count filter_1_half + 1,
             bit_array := bits_after example_hash filter_1_half [''bc'']\<rparr> = filter_with_bc"
    using add_bc BloomFilter_add_ok[OF wf_filter_1_half, of example_hash "''bc''"] by simp
  have a1: "ScalableBloomFilter_add example_hash ?st ?s ''bc'' = Inr (?st1, ?s1)"
  proof -
    have "filters ?s \<noteq> []" "wf_filter (heap ?st (last (filters ?s)))"
      "\<not> is_full (heap ?st (last (filters ?s)))"
      using wf_filter_1_half by (simp_all add: is_full_def filter_1_half_def)
    from scalable_add_not_full[OF this, of example_hash "''bc''"] b show ?thesis by simp
  qed
  have l1: "ScalableBloomFilter_lookup example_hash ?st1 ?s1 ''bc'' = Inr True"
    by (simp add: ScalableBloomFilter_lookup_def lookup_bc_example)
  have r1: "apply_operations example_hash ?st ?s [Add ''bc'', Lookup ''bc''] = Inr (?st1, ?s1)"
    by (simp only: apply_operations.simps apply_operation.simps a1 l1 sum.case prod.case)
  have nc: "calc_next_capacity ?s1 = 2"
    using calc_next_capacity_int[of ?s1 2] by (simp add: SCALE_MODE_LINEAR_def)
  let ?f2 = "filter_2_half\<lparr>element_count := element_count filter_2_half + 1,
               bit_array := bits_after example_hash filter_2_half [''a'']\<rparr>"
  let ?st2 = "?st1\<lparr>heap := (heap ?st1)(1 := ?f2), next_ref := 2\<rparr>"
  let ?s2 = "?s1\<lparr>filters := [0, 1], element_count_s := 2\<rparr>"
  have a2: "ScalableBloomFilter_add example_hash ?st1 ?s1 ''a'' = Inr (?st2, ?s2)"
  proof -
    have "filters ?s1 \<noteq> []" "is_full (heap ?st1 (last (filters ?s1)))"
      "BloomFilter_init (calc_next_capacity ?s1) (error_rate_s ?s1) = Inr filter_2_half"
      using init_2_half nc by (simp_all add: is_full_def filter_with_bc_def filter_1_half_def)
    from scalable_add_full[OF this, of example_hash "''a''"] show ?thesis by simp
  qed
  let ?st3 = "?st2\<lparr>heap := (heap ?st2)(2 := filter_1_half), next_ref := 3\<rparr>"
  let ?s3 = "?s\<lparr>filters := [0, 1, 0], element_count_s := 3\<rparr>"
  have u: "ScalableBloomFilter_union ?st2 ?s2 scalable_two = Inr (?st3, ?s3)"
    using scalable_init_ok[of 1 "1/2" 2 1 ?st2] init_1_half
    by (simp add: ScalableBloomFilter_union_def scalable_two_def)
  have r2: "apply_operations example_hash ?st1 ?s1 [Add ''a'', Union scalable_two] = Inr (?st3, ?s3)"
    by (simp only: apply_operations.simps apply_operation.simps a2 u sum.case prod.case)
  from filters_never_empty_only_grow[OF i r1 r2]
  have p: "prefix (filters ?s1) (filters ?s3)" by blast
  have c: "filters ?s = [0]" "capacity (heap ?st 0) = 1" "filters ?s1 = [0]"
    "filters ?s3 = [0, 1, 0]"
    by (simp_all add: filter_1_half_def)
  from i r1 r2 c p show ?thesis by blast
qed

text \<open>
  C10. For both classes \<open>e in filter\<close> returns what \<open>lookup(e)\<close> returns (or raises
  what it raises).
\<close>

theorem contains_is_lookup:
  "BloomFilter_contains h f e = BloomFilter_lookup h f e \<and>
   ScalableBloomFilter_contains h st s e = ScalableBloomFilter_lookup h st s e"
  by (simp add: BloomFilter_contains_def ScalableBloomFilter_contains_def)

end
